theory Spec2Isabelle
  imports Main "HOL-Library.Sublist"
begin

section \<open>Go strings as byte lists\<close>

text \<open>
  A Go \<open>string\<close> is a sequence of bytes; it is modelled as \<^typ>\<open>string\<close> (a list of 8-bit
  characters).  The functions of package \<open>strings\<close> that the program calls are written out on
  bytes below.
\<close>

abbreviation NL :: char where "NL \<equiv> CHR 0x0A"
abbreviation CR :: char where "CR \<equiv> CHR 0x0D"
abbreviation TAB :: char where "TAB \<equiv> CHR 0x09"
abbreviation SP :: char where "SP \<equiv> CHR 0x20"

text \<open>\<open>strings.Contains\<close>, \<open>strings.HasPrefix\<close>, \<open>strings.HasSuffix\<close>.\<close>

abbreviation Contains :: "string \<Rightarrow> string \<Rightarrow> bool" where
  "Contains s substr \<equiv> sublist substr s"

abbreviation HasPrefix :: "string \<Rightarrow> string \<Rightarrow> bool" where
  "HasPrefix s p \<equiv> prefix p s"

abbreviation HasSuffix :: "string \<Rightarrow> string \<Rightarrow> bool" where
  "HasSuffix s x \<equiv> suffix x s"

text \<open>
  \<open>strings.TrimSpace\<close> removes leading and trailing runes for which \<open>unicode.IsSpace\<close>
  holds.  On the bytes of the string these are the UTF-8 encodings of
  U+0009..U+000D, U+0020, U+0085, U+00A0, U+1680, U+2000..U+200A, U+2028, U+2029, U+202F,
  U+205F and U+3000; a byte that does not start (or end) such an encoding stops the trim.
\<close>

definition space_seqs :: "string list" where
  "space_seqs =
    [[CHR 0x09], [CHR 0x0A], [CHR 0x0B], [CHR 0x0C], [CHR 0x0D], [CHR 0x20],
     [CHR 0xC2, CHR 0x85], [CHR 0xC2, CHR 0xA0],
     [CHR 0xE1, CHR 0x9A, CHR 0x80],
     [CHR 0xE2, CHR 0x80, CHR 0x80], [CHR 0xE2, CHR 0x80, CHR 0x81],
     [CHR 0xE2, CHR 0x80, CHR 0x82], [CHR 0xE2, CHR 0x80, CHR 0x83],
     [CHR 0xE2, CHR 0x80, CHR 0x84], [CHR 0xE2, CHR 0x80, CHR 0x85],
     [CHR 0xE2, CHR 0x80, CHR 0x86], [CHR 0xE2, CHR 0x80, CHR 0x87],
     [CHR 0xE2, CHR 0x80, CHR 0x88], [CHR 0xE2, CHR 0x80, CHR 0x89],
     [CHR 0xE2, CHR 0x80, CHR 0x8A],
     [CHR 0xE2, CHR 0x80, CHR 0xA8], [CHR 0xE2, CHR 0x80, CHR 0xA9],
     [CHR 0xE2, CHR 0x80, CHR 0xAF],
     [CHR 0xE2, CHR 0x81, CHR 0x9F],
     [CHR 0xE3, CHR 0x80, CHR 0x80]]"

fun strip_seqs :: "string list \<Rightarrow> string \<Rightarrow> string" where
  "strip_seqs ws [] = []"
| "strip_seqs ws (c # cs) =
     (case find (\<lambda>w. prefix w (c # cs)) ws of
        None \<Rightarrow> c # cs
      | Some w \<Rightarrow> strip_seqs ws (drop (length w - 1) cs))"

definition TrimLeftSpace :: "string \<Rightarrow> string" where
  "TrimLeftSpace s = strip_seqs space_seqs s"

definition TrimRightSpace :: "string \<Rightarrow> string" where
  "TrimRightSpace s = rev (strip_seqs (map rev space_seqs) (rev s))"

definition TrimSpace :: "string \<Rightarrow> string" where
  "TrimSpace s = TrimRightSpace (TrimLeftSpace s)"

text \<open>
  \<open>strings.TrimRight(s, cutset)\<close>, \<open>strings.Trim(s, cutset)\<close>: for a cutset of ASCII bytes
  (the program passes \<open>"\n\t "\<close> and \<open>"/"\<close>) the trim works byte by byte.
\<close>

definition TrimRight :: "string \<Rightarrow> string \<Rightarrow> string" where
  "TrimRight s cutset = rev (dropWhile (\<lambda>c. c \<in> set cutset) (rev s))"





section \<open>bufio.Scanner with the default split function ScanLines\<close>

text \<open>
  The scanner yields the text between newlines, each token stripped of one trailing carriage
  return; an empty final line is not a token.  A line of \<open>MaxScanTokenSize\<close> bytes or more
  does not fit the scanner's buffer: the scan stops there and \<open>scanner.Err()\<close> is
  \<open>ErrTooLong\<close>.
\<close>

definition MaxScanTokenSize :: nat where
  "MaxScanTokenSize = 64 * 1024"

fun raw_lines :: "string \<Rightarrow> string list" where
  "raw_lines [] = []"
| "raw_lines (c # cs) =
     (if c = NL then [] # raw_lines cs
      else (case raw_lines cs of [] \<Rightarrow> [[c]] | l # ls \<Rightarrow> (c # l) # ls))"

definition dropCR :: "string \<Rightarrow> string" where
  "dropCR l = (if l \<noteq> [] \<and> last l = CR then butlast l else l)"

definition fits :: "string \<Rightarrow> bool" where
  "fits l = (length l < MaxScanTokenSize)"

text \<open>The tokens that \<open>scanner.Scan()\<close> delivers, and whether \<open>scanner.Err()\<close> is set after.\<close>

definition scan_tokens :: "string \<Rightarrow> string list" where
  "scan_tokens data = map dropCR (takeWhile fits (raw_lines data))"

definition scan_err :: "string \<Rightarrow> bool" where
  "scan_err data = (\<not> list_all fits (raw_lines data))"

section \<open>The ignore file and its manager (pkg/gitignore/manager.go)\<close>

text \<open>
  A \<open>Manager\<close> holds only the path of its file, so an operation is a function of the state
  of that path on disk: the file's content (\<open>None\<close> when the file is absent), whether
  \<open>os.ReadFile\<close> fails for a reason other than absence, and whether \<open>os.MkdirAll\<close> or
  \<open>os.WriteFile\<close> fails.  A failed write is taken to leave the file as it was.
\<close>

record disk =
  contents :: "string option"
  unreadable :: bool
  unwritable :: bool

datatype error =
    ReadFailed
  | WriteFailed
  | SectionExists string
  | SectionNotFound string
  | ScanFailed
  | PatternEmpty
  | InvalidGitHubURL string
  | InvalidGitHubSSHURL string
  | UnsupportedURLFormat string
  | SourceError string
  | ListLocalFailed error

definition SectionStartPrefix :: string where
  "SectionStartPrefix = ''### START:''"

definition SectionEndPrefix :: string where
  "SectionEndPrefix = ''### END:''"

definition IgnoredSectionPrefix :: string where
  "IgnoredSectionPrefix = ''ignored/''"

definition Read :: "disk \<Rightarrow> error + string" where
  "Read d =
     (if unreadable d then Inl ReadFailed
      else case contents d of None \<Rightarrow> Inr [] | Some content \<Rightarrow> Inr content)"

definition write_file :: "string \<Rightarrow> disk \<Rightarrow> error option \<times> disk" where
  "write_file content d =
     (if unwritable d then (Some WriteFailed, d) else (None, d\<lparr>contents := Some content\<rparr>))"

text \<open>\<open>fmt.Sprintf("%s %s", prefix, sectionName)\<close>\<close>

definition startMarker :: "string \<Rightarrow> string" where
  "startMarker sectionName = SectionStartPrefix @ [SP] @ sectionName"

definition endMarker :: "string \<Rightarrow> string" where
  "endMarker sectionName = SectionEndPrefix @ [SP] @ sectionName"

definition HasSection :: "string \<Rightarrow> disk \<Rightarrow> error + bool" where
  "HasSection sectionName d =
     (case Read d of
        Inl err \<Rightarrow> Inl err
      | Inr content \<Rightarrow> Inr (Contains content (startMarker sectionName)))"

text \<open>The text that \<open>Add\<close> builds in its \<open>strings.Builder\<close>.\<close>

definition Add_build :: "string \<Rightarrow> string \<Rightarrow> string \<Rightarrow> string" where
  "Add_build currentContent sectionName content =
     (let b0 = (if currentContent \<noteq> []
                then currentContent @ (if \<not> HasSuffix currentContent [NL] then [NL] else []) @ [NL]
                else []);
          b1 = b0 @ startMarker sectionName @ [NL];
          content' = TrimSpace content;
          b2 = b1 @ content' @ (if \<not> HasSuffix content' [NL] then [NL] else [])
      in b2 @ endMarker sectionName @ [NL])"

definition Add :: "string \<Rightarrow> string \<Rightarrow> disk \<Rightarrow> error option \<times> disk" where
  "Add sectionName content d =
     (case HasSection sectionName d of
        Inl err \<Rightarrow> (Some err, d)
      | Inr exists \<Rightarrow>
          if exists then (Some (SectionExists sectionName), d)
          else (case Read d of
                  Inl err \<Rightarrow> (Some err, d)
                | Inr currentContent \<Rightarrow> write_file (Add_build currentContent sectionName content) d))"

text \<open>The loop of \<open>Delete\<close>: its four variables, and one iteration for one scanned line.\<close>

record del_state =
  result :: string
  inSection :: bool
  foundSection :: bool
  prevLineEmpty :: bool

definition del_init :: del_state where
  "del_init = \<lparr>result = [], inSection = False, foundSection = False, prevLineEmpty = False\<rparr>"

definition del_step :: "string \<Rightarrow> del_state \<Rightarrow> string \<Rightarrow> del_state" where
  "del_step sectionName st line =
     (if TrimSpace line = startMarker sectionName
      then st\<lparr>inSection := True, foundSection := True\<rparr>
      else if TrimSpace line = endMarker sectionName
      then st\<lparr>inSection := False\<rparr>
      else if \<not> inSection st
      then (if TrimSpace line = []
            then (if prevLineEmpty st then st
                  else st\<lparr>prevLineEmpty := True, result := result st @ line @ [NL]\<rparr>)
            else st\<lparr>prevLineEmpty := False, result := result st @ line @ [NL]\<rparr>)
      else st)"

definition finalContent :: "string \<Rightarrow> string" where
  "finalContent res =
     (let t = TrimRight res [NL, TAB, SP] in if t \<noteq> [] then t @ [NL] else t)"

definition Delete :: "string \<Rightarrow> disk \<Rightarrow> error option \<times> disk" where
  "Delete sectionName d =
     (case Read d of
        Inl err \<Rightarrow> (Some err, d)
      | Inr content \<Rightarrow>
          if content = [] then (Some (SectionNotFound sectionName), d)
          else (let st = foldl (del_step sectionName) del_init (scan_tokens content)
                in if scan_err content then (Some ScanFailed, d)
                   else if \<not> foundSection st then (Some (SectionNotFound sectionName), d)
                   else write_file (finalContent (result st)) d))"

text \<open>
  \<open>AddPatterns\<close> (the section-wrapped version): the loop over the patterns with its two
  result slices; an error of \<open>HasSection\<close> or \<open>Add\<close> ends the loop and is returned with
  the slices built so far.
\<close>

fun AddPatterns_loop ::
  "string list \<Rightarrow> string list \<Rightarrow> string list \<Rightarrow> disk
     \<Rightarrow> (string list \<times> string list \<times> error option) \<times> disk" where
  "AddPatterns_loop [] added skipped d = ((added, skipped, None), d)"
| "AddPatterns_loop (p # ps) added skipped d =
     (let pattern = TrimSpace p in
      if pattern = [] then AddPatterns_loop ps added skipped d
      else (let sectionName = IgnoredSectionPrefix @ pattern in
            case HasSection sectionName d of
              Inl err \<Rightarrow> ((added, skipped, Some err), d)
            | Inr exists \<Rightarrow>
                if exists then AddPatterns_loop ps added (skipped @ [pattern]) d
                else (case Add sectionName pattern d of
                        (Some err, d') \<Rightarrow> ((added, skipped, Some err), d')
                      | (None, d') \<Rightarrow> AddPatterns_loop ps (added @ [pattern]) skipped d')))"

definition AddPatterns ::
  "string list \<Rightarrow> disk \<Rightarrow> (string list \<times> string list \<times> error option) \<times> disk" where
  "AddPatterns patterns d = AddPatterns_loop patterns [] [] d"

definition RemovePattern :: "string \<Rightarrow> disk \<Rightarrow> error option \<times> disk" where
  "RemovePattern p d =
     (let pattern = TrimSpace p in
      if pattern = [] then (Some PatternEmpty, d)
      else Delete (IgnoredSectionPrefix @ pattern) d)"

section \<open>Repository URLs (pkg/github/client.go)\<close>


section \<open>Template sources and the source manager (pkg/source)\<close>

record TemplateFile =
  Name :: string
  Path :: string
  Category :: string
  Source :: string

text \<open>
  A \<open>Source\<close> is an interface; \<open>List\<close> and \<open>ListBySource\<close> call only its methods \<open>Name()\<close>
  and \<open>List()\<close>, each source once.  A source is therefore the pair of what these two calls
  return: its name, and either the error or the files of its listing.
\<close>

record Source =
  srcName :: string
  srcList :: "error + TemplateFile list"

record SourceManager =
  local :: Source
  remote :: "Source list"
  sources :: "Source list"

record SourceResult =
  Files :: "TemplateFile list"
  Error :: "error option"

text \<open>
  \<open>SourceManager.List\<close>.  \<open>strings.ToLower\<close> follows the Unicode case tables, which are
  not part of the program; it is the parameter \<open>lower\<close>.  The map \<open>localNames\<close> holds
  \<open>true\<close> at the keys inserted, so it is the set of its keys.
\<close>

definition List_local_loop ::
  "(string \<Rightarrow> string) \<Rightarrow> TemplateFile list \<Rightarrow> TemplateFile list \<times> string set" where
  "List_local_loop lower localFiles =
     foldl (\<lambda>(allFiles, localNames) f. (allFiles @ [f], insert (lower (Name f)) localNames))
       ([], {}) localFiles"

definition List_remote_step ::
  "(string \<Rightarrow> string) \<Rightarrow> string set \<Rightarrow> TemplateFile list \<Rightarrow> Source \<Rightarrow> TemplateFile list" where
  "List_remote_step lower localNames allFiles src =
     (case srcList src of
        Inl err \<Rightarrow> allFiles
      | Inr files \<Rightarrow>
          foldl (\<lambda>all f. if lower (Name f) \<notin> localNames then all @ [f] else all) allFiles files)"

definition SourceManager_List ::
  "(string \<Rightarrow> string) \<Rightarrow> SourceManager \<Rightarrow> error + TemplateFile list" where
  "SourceManager_List lower sm =
     (case srcList (local sm) of
        Inl err \<Rightarrow> Inl (ListLocalFailed err)
      | Inr localFiles \<Rightarrow>
          (case List_local_loop lower localFiles of
             (allFiles, localNames) \<Rightarrow>
               Inr (foldl (List_remote_step lower localNames) allFiles (remote sm))))"

definition ListBySource_step ::
  "(string \<rightharpoonup> SourceResult) \<Rightarrow> Source \<Rightarrow> (string \<rightharpoonup> SourceResult)" where
  "ListBySource_step res src =
     (case srcList src of
        Inl err \<Rightarrow> res(srcName src \<mapsto> \<lparr>Files = [], Error = Some err\<rparr>)
      | Inr files \<Rightarrow> res(srcName src \<mapsto> \<lparr>Files = files, Error = None\<rparr>))"

definition SourceManager_ListBySource ::
  "SourceManager \<Rightarrow> (string \<rightharpoonup> SourceResult) \<times> error option" where
  "SourceManager_ListBySource sm = (foldl ListBySource_step Map.empty (sources sm), None)"

text \<open>\<open>strings.ToLower\<close> on ASCII letters, for running the manager on concrete names.\<close>

definition ToLower_ascii :: "string \<Rightarrow> string" where
  "ToLower_ascii s =
     map (\<lambda>c. case map_of (zip ''ABCDEFGHIJKLMNOPQRSTUVWXYZ'' ''abcdefghijklmnopqrstuvwxyz'') c of
                None \<Rightarrow> c
              | Some l \<Rightarrow> l) s"

section \<open>The specification's view of the editor\<close>

text \<open>
  The lines that a deletion of section \<open>n\<close> retains: neither a marker line of \<open>n\<close> nor a line
  after a start marker of \<open>n\<close> and before its next end marker.  The flag says whether the
  line before lay inside the section.
\<close>

fun outside :: "string \<Rightarrow> bool \<Rightarrow> string list \<Rightarrow> string list" where
  "outside n ins [] = []"
| "outside n ins (l # ls) =
     (if TrimSpace l = startMarker n then outside n True ls
      else if TrimSpace l = endMarker n then outside n False ls
      else if ins then outside n True ls
      else l # outside n False ls)"

text \<open>
  The pass over the retained lines that suppresses runs of blank lines: a blank line that
  follows a retained blank line is dropped.  The flag says whether the line before was blank.
\<close>

fun collapse_blank :: "bool \<Rightarrow> string list \<Rightarrow> string list" where
  "collapse_blank prev [] = []"
| "collapse_blank prev (l # ls) =
     (if TrimSpace l = [] then (if prev then collapse_blank True ls else l # collapse_blank True ls)
      else l # collapse_blank False ls)"

definition join_lines :: "string list \<Rightarrow> string" where
  "join_lines ls = concat (map (\<lambda>l. l @ [NL]) ls)"

text \<open>Blank-line runs collapsed, line ends made \<open>\n\<close>, trailing blank content trimmed.\<close>

definition normalize_text :: "string \<Rightarrow> string" where
  "normalize_text content = finalContent (join_lines (collapse_blank False (scan_tokens content)))"

definition ends_with_one_NL :: "string \<Rightarrow> bool" where
  "ends_with_one_NL s = (HasSuffix s [NL] \<and> \<not> HasSuffix s [NL, NL])"

text \<open>
  The deletion as the specification words it: blank-line runs are collapsed only outside
  every section, a section being opened by a line that starts with \<open>SectionStartPrefix\<close> and
  closed by one that starts with \<open>SectionEndPrefix\<close>.
\<close>

fun collapse_outside_sections :: "bool \<Rightarrow> bool \<Rightarrow> string list \<Rightarrow> string list" where
  "collapse_outside_sections ins prev [] = []"
| "collapse_outside_sections ins prev (l # ls) =
     (if HasPrefix (TrimSpace l) SectionStartPrefix then l # collapse_outside_sections True False ls
      else if HasPrefix (TrimSpace l) SectionEndPrefix then l # collapse_outside_sections False False ls
      else if ins then l # collapse_outside_sections True False ls
      else if TrimSpace l = []
      then (if prev then collapse_outside_sections False True ls
            else l # collapse_outside_sections False True ls)
      else l # collapse_outside_sections False False ls)"

definition Delete_as_stated :: "string \<Rightarrow> string \<Rightarrow> string" where
  "Delete_as_stated n content =
     finalContent (join_lines
       (collapse_outside_sections False False (outside n False (scan_tokens content))))"

section \<open>Example states\<close>

definition no_file :: disk where
  "no_file = \<lparr>contents = None, unreadable = False, unwritable = False\<rparr>"

definition on_disk :: "string \<Rightarrow> disk" where
  "on_disk content = \<lparr>contents = Some content, unreadable = False, unwritable = False\<rparr>"

text \<open>A file of one line, as long as the scanner's token limit.\<close>

definition long_line :: string where
  "long_line = replicate MaxScanTokenSize (CHR ''a'')"

definition template :: "string \<Rightarrow> string \<Rightarrow> TemplateFile" where
  "template name src = \<lparr>Name = name, Path = name, Category = [], Source = src\<rparr>"

section \<open>Facts about the string functions\<close>

lemma strip_seqs_stable:
  "strip_seqs ws s = c # cs \<Longrightarrow> find (\<lambda>w. prefix w (c # cs)) ws = None"
proof (induction ws s rule: strip_seqs.induct)
  case (1 ws)
  then show ?case by simp
next
  case (2 ws a as)
  then show ?case by (auto split: option.splits)
qed

lemma strip_seqs_no_prefix:
  assumes "w \<in> set ws" "strip_seqs ws s \<noteq> []"
  shows "\<not> prefix w (strip_seqs ws s)"
proof -
  from assms(2) obtain c cs where e: "strip_seqs ws s = c # cs" by (cases "strip_seqs ws s") auto
  from strip_seqs_stable [OF e] assms(1) show ?thesis
    by (auto simp: e find_None_iff)
qed

lemma TrimRightSpace_no_suffix:
  assumes "w \<in> set space_seqs" "TrimRightSpace s \<noteq> []"
  shows "\<not> suffix w (TrimRightSpace s)"
proof -
  have "rev w \<in> set (map rev space_seqs)" using assms(1) by simp
  moreover have "strip_seqs (map rev space_seqs) (rev s) \<noteq> []"
    using assms(2) by (simp add: TrimRightSpace_def)
  ultimately have "\<not> prefix (rev w) (strip_seqs (map rev space_seqs) (rev s))"
    by (rule strip_seqs_no_prefix)
  then show ?thesis by (simp add: TrimRightSpace_def suffix_to_prefix)
qed

lemma TrimSpace_no_suffix:
  "w \<in> set space_seqs \<Longrightarrow> TrimSpace s \<noteq> [] \<Longrightarrow> \<not> suffix w (TrimSpace s)"
  unfolding TrimSpace_def by (rule TrimRightSpace_no_suffix)

lemma TrimSpace_not_NL: "\<not> suffix [NL] (TrimSpace s)"
proof (cases "TrimSpace s = []")
  case True
  then show ?thesis by simp
next
  case False
  moreover have "[NL] \<in> set space_seqs" by (simp add: space_seqs_def)
  ultimately show ?thesis by (simp add: TrimSpace_no_suffix)
qed

lemma suffix_single: "suffix [c] s \<longleftrightarrow> s \<noteq> [] \<and> last s = c"
  by (cases s rule: rev_cases) (auto simp: suffix_def)

lemma TrimRight_last:
  "TrimRight s cutset \<noteq> [] \<Longrightarrow> last (TrimRight s cutset) \<notin> set cutset"
  unfolding TrimRight_def
  by (metis (mono_tags, lifting) hd_dropWhile last_rev rev_is_Nil_conv)

section \<open>Facts about the editor\<close>

lemma ends_with_one_NL_snoc:
  "ends_with_one_NL (xs @ [NL]) \<longleftrightarrow> (xs = [] \<or> last xs \<noteq> NL)"
proof -
  have "suffix [NL, NL] (xs @ [NL]) \<longleftrightarrow> suffix [NL] xs"
    using snoc_suffix_snoc [of "[NL]" NL xs NL] by simp
  then show ?thesis by (auto simp: ends_with_one_NL_def suffix_single)
qed

lemma finalContent_shape: "finalContent r = [] \<or> ends_with_one_NL (finalContent r)"
proof (cases "TrimRight r [NL, TAB, SP] = []")
  case True
  then show ?thesis by (simp add: finalContent_def)
next
  case False
  from TrimRight_last [OF False] have "last (TrimRight r [NL, TAB, SP]) \<noteq> NL" by auto
  with False show ?thesis by (simp add: finalContent_def Let_def ends_with_one_NL_snoc)
qed

lemma Add_build_shape:
  assumes "\<not> HasSuffix n [NL]"
  shows "ends_with_one_NL (Add_build cur n c)"
proof -
  have "endMarker n \<noteq> []" by (simp add: endMarker_def)
  moreover have "last (endMarker n) \<noteq> NL"
    using assms by (cases "n = []") (auto simp: endMarker_def suffix_single)
  ultimately have "\<And>xs. last (xs @ endMarker n) \<noteq> NL" by simp
  then show ?thesis
    unfolding Add_build_def Let_def
    by (metis append.assoc ends_with_one_NL_snoc)
qed

lemma Read_Inl: "Read d = Inl e \<longleftrightarrow> unreadable d \<and> e = ReadFailed"
  by (auto simp: Read_def split: option.splits)

lemma Read_Inr:
  "Read d = Inr c \<longleftrightarrow> \<not> unreadable d \<and> c = (case contents d of None \<Rightarrow> [] | Some x \<Rightarrow> x)"
  by (auto simp: Read_def split: option.splits)

lemma Read_after_write: "\<not> unreadable d \<Longrightarrow> Read (d\<lparr>contents := Some x\<rparr>) = Inr x"
  by (simp add: Read_def)

lemma Add_success:
  "Add n c d = (None, d') \<longleftrightarrow>
     (\<exists>cur. Read d = Inr cur \<and> \<not> Contains cur (startMarker n) \<and> \<not> unwritable d \<and>
            d' = d\<lparr>contents := Some (Add_build cur n c)\<rparr>)"
  by (auto simp: Add_def HasSection_def write_file_def split: sum.splits)

lemma Add_build_Contains: "Contains (Add_build cur n c) (startMarker n)"
  unfolding Add_build_def Let_def
  by (metis append.assoc sublist_appendI)

lemma Delete_success:
  "Delete n d = (None, d') \<Longrightarrow> \<exists>r. d' = d\<lparr>contents := Some (finalContent r)\<rparr>"
  by (auto simp: Delete_def write_file_def Let_def split: sum.splits if_splits)

lemma Add_success_shape:
  assumes "Add n c d = (None, d')" "\<not> HasSuffix n [NL]"
  shows "\<exists>x. contents d' = Some x \<and> ends_with_one_NL x"
  using assms by (auto simp: Add_success Add_build_shape)

lemma Delete_success_shape:
  assumes "Delete n d = (None, d')"
  shows "\<exists>x. contents d' = Some x \<and> (x = [] \<or> ends_with_one_NL x)"
  using Delete_success [OF assms] finalContent_shape by auto

lemma wrapped_no_NL_suffix:
  assumes "TrimSpace p \<noteq> []"
  shows "\<not> HasSuffix (IgnoredSectionPrefix @ TrimSpace p) [NL]"
  using assms TrimSpace_not_NL [of p] by (simp add: suffix_single)

lemma AddPatterns_loop_shape:
  "AddPatterns_loop ps a s d = ((a', s', None), d') \<Longrightarrow>
     d' = d \<or> (\<exists>x. contents d' = Some x \<and> ends_with_one_NL x)"
proof (induction ps arbitrary: a s d)
  case Nil
  then show ?case by simp
next
  case (Cons p ps)
  let ?q = "TrimSpace p"
  show ?case
  proof (cases "?q = []")
    case True
    with Cons.prems have "AddPatterns_loop ps a s d = ((a', s', None), d')" by simp
    then show ?thesis by (rule Cons.IH)
  next
    case False
    show ?thesis
    proof (cases "HasSection (IgnoredSectionPrefix @ ?q) d")
      case (Inl e)
      with False Cons.prems show ?thesis by simp
    next
      case (Inr ex)
      show ?thesis
      proof (cases ex)
        case True
        with False Inr Cons.prems
        have "AddPatterns_loop ps a (s @ [?q]) d = ((a', s', None), d')" by simp
        then show ?thesis by (rule Cons.IH)
      next
        case nex: False
        obtain r d1 where add: "Add (IgnoredSectionPrefix @ ?q) ?q d = (r, d1)"
          by (cases "Add (IgnoredSectionPrefix @ ?q) ?q d")
        show ?thesis
        proof (cases r)
          case None
          with False Inr nex add Cons.prems
          have "AddPatterns_loop ps (a @ [?q]) s d1 = ((a', s', None), d')" by simp
          then have "d' = d1 \<or> (\<exists>x. contents d' = Some x \<and> ends_with_one_NL x)"
            by (rule Cons.IH)
          moreover have "\<exists>x. contents d1 = Some x \<and> ends_with_one_NL x"
            using add None wrapped_no_NL_suffix [OF False] by (simp add: Add_success_shape)
          ultimately show ?thesis by auto
        next
          case (Some e)
          with False Inr nex add Cons.prems show ?thesis by simp
        qed
      qed
    qed
  qed
qed

lemma del_found:
  "foundSection (foldl (del_step n) st toks) \<longleftrightarrow>
     foundSection st \<or> (\<exists>l \<in> set toks. TrimSpace l = startMarker n)"
  by (induction toks arbitrary: st) (auto simp: del_step_def)

lemma raw_lines_replicate:
  "a \<noteq> NL \<Longrightarrow> 0 < k \<Longrightarrow> raw_lines (replicate k a) = [replicate k a]"
proof (induction k)
  case 0
  then show ?case by simp
next
  case (Suc k)
  then show ?case by (cases k) auto
qed

lemma MaxScanTokenSize_pos: "0 < MaxScanTokenSize"
  by (simp add: MaxScanTokenSize_def)

lemma long_line_scan_err: "scan_err long_line"
proof -
  have "raw_lines long_line = [long_line]"
    unfolding long_line_def by (rule raw_lines_replicate) (simp_all add: MaxScanTokenSize_pos)
  moreover have "\<not> fits long_line" by (simp add: fits_def long_line_def)
  ultimately show ?thesis by (simp add: scan_err_def)
qed

lemma long_line_nonempty: "long_line \<noteq> []"
  using MaxScanTokenSize_pos by (simp add: long_line_def)

section \<open>Running the model\<close>

lemmas string_defs =
  TrimSpace_def TrimLeftSpace_def TrimRightSpace_def space_seqs_def TrimRight_def
  join_lines_def suffix_to_prefix

lemmas scanner_defs =
  scan_tokens_def scan_err_def fits_def MaxScanTokenSize_def dropCR_def

lemmas marker_defs =
  startMarker_def endMarker_def SectionStartPrefix_def SectionEndPrefix_def
  IgnoredSectionPrefix_def

lemmas editor_defs =
  Read_def write_file_def HasSection_def Add_def Add_build_def Delete_def del_step_def
  del_init_def finalContent_def no_file_def on_disk_def Let_def

section \<open>Facts about the source manager\<close>

lemma ListBySource_fold_dom:
  "dom (foldl ListBySource_step m srcs) = dom m \<union> srcName ` set srcs"
  by (induction srcs arbitrary: m) (auto simp: ListBySource_step_def split: sum.splits)

lemma ListBySource_fold_other:
  "k \<notin> srcName ` set srcs \<Longrightarrow> foldl ListBySource_step m srcs k = m k"
  by (induction srcs arbitrary: m) (auto simp: ListBySource_step_def split: sum.splits)

lemma ListBySource_fold_entry:
  "distinct (map srcName srcs) \<Longrightarrow> src \<in> set srcs \<Longrightarrow>
     foldl ListBySource_step m srcs (srcName src) =
       Some (case srcList src of
               Inl err \<Rightarrow> \<lparr>Files = [], Error = Some err\<rparr>
             | Inr files \<Rightarrow> \<lparr>Files = files, Error = None\<rparr>)"
proof (induction srcs arbitrary: m)
  case Nil
  then show ?case by simp
next
  case (Cons a srcs)
  show ?case
  proof (cases "src = a")
    case True
    with Cons.prems have "srcName src \<notin> srcName ` set srcs" by auto
    then have "foldl ListBySource_step (ListBySource_step m a) srcs (srcName src)
                 = ListBySource_step m a (srcName src)"
      by (rule ListBySource_fold_other)
    moreover have "ListBySource_step m a (srcName a) =
        Some (case srcList a of
               Inl err \<Rightarrow> \<lparr>Files = [], Error = Some err\<rparr>
             | Inr files \<Rightarrow> \<lparr>Files = files, Error = None\<rparr>)"
      by (simp add: ListBySource_step_def split: sum.splits)
    ultimately show ?thesis using True by simp
  next
    case False
    with Cons.prems have "src \<in> set srcs" "distinct (map srcName srcs)" by auto
    then show ?thesis using Cons.IH by simp
  qed
qed

lemma List_local_loop_fold:
  "foldl (\<lambda>(allFiles, localNames) f. (allFiles @ [f], insert (lower (Name f)) localNames))
     (acc, names) fs = (acc @ fs, names \<union> lower ` Name ` set fs)"
  by (induction fs arbitrary: acc names) auto

lemma List_local_loop_eq: "List_local_loop lower fs = (fs, lower ` Name ` set fs)"
  by (simp add: List_local_loop_def List_local_loop_fold)

lemma List_filter_fold:
  "foldl (\<lambda>all f. if P f then all @ [f] else all) acc fs = acc @ filter P fs"
  by (induction fs arbitrary: acc) auto

lemma List_remote_step_eq:
  "List_remote_step lower names acc src =
     acc @ (case srcList src of
              Inl err \<Rightarrow> []
            | Inr files \<Rightarrow> filter (\<lambda>f. lower (Name f) \<notin> names) files)"
  by (simp add: List_remote_step_def List_filter_fold split: sum.splits)

lemma List_remote_fold:
  "foldl (List_remote_step lower names) acc srcs =
     acc @ concat (map (\<lambda>src. case srcList src of
                                  Inl err \<Rightarrow> []
                                | Inr files \<Rightarrow> filter (\<lambda>f. lower (Name f) \<notin> names) files) srcs)"
  by (induction srcs arbitrary: acc) (simp_all add: List_remote_step_eq)

lemma filter_remote_none:
  "filter (\<lambda>f. lower (Name f) \<in> names)
     (concat (map (\<lambda>src. case srcList src of
                            Inl err \<Rightarrow> []
                          | Inr files \<Rightarrow> filter (\<lambda>f. lower (Name f) \<notin> names) files) srcs)) = []"
  by (induction srcs) (auto split: sum.splits simp: filter_empty_conv)


section \<open>Facts about the loop of Delete\<close>

lemma join_lines_Cons: "join_lines (l # ls) = l @ NL # join_lines ls"
  by (simp add: join_lines_def)

lemma join_lines_Nil: "join_lines [] = []"
  by (simp add: join_lines_def)

lemma del_result:
  "result (foldl (del_step n) st toks) =
     result st @ join_lines (collapse_blank (prevLineEmpty st) (outside n (inSection st) toks))"
proof (induction toks arbitrary: st)
  case Nil
  then show ?case by (simp add: join_lines_Nil)
next
  case (Cons l ls)
  show ?case
    by (simp add: Cons.IH) (simp add: del_step_def join_lines_Cons)
qed

lemma markers_differ: "startMarker n \<noteq> endMarker n"
  by (simp add: startMarker_def endMarker_def SectionStartPrefix_def SectionEndPrefix_def)

lemma outside_no_markers:
  "\<forall>l \<in> set ls. TrimSpace l \<noteq> startMarker n \<and> TrimSpace l \<noteq> endMarker n \<Longrightarrow>
     outside n False (ls @ rest) = ls @ outside n False rest"
  by (induction ls) auto

lemma outside_inside:
  "\<forall>l \<in> set body. TrimSpace l \<noteq> endMarker n \<Longrightarrow>
     outside n True (body @ rest) = outside n True rest"
  by (induction body) auto

lemma outside_section:
  assumes "\<forall>l \<in> set pre. TrimSpace l \<noteq> startMarker n \<and> TrimSpace l \<noteq> endMarker n"
    and "TrimSpace s = startMarker n"
    and "\<forall>l \<in> set body. TrimSpace l \<noteq> endMarker n"
    and "TrimSpace e = endMarker n"
    and "\<forall>l \<in> set post. TrimSpace l \<noteq> startMarker n \<and> TrimSpace l \<noteq> endMarker n"
  shows "outside n False (pre @ s # body @ e # post) = pre @ post"
proof -
  have "outside n False (pre @ s # body @ e # post) = pre @ outside n False (s # body @ e # post)"
    using assms(1) by (rule outside_no_markers)
  also have "outside n False (s # body @ e # post) = outside n True (body @ e # post)"
    using assms(2) by simp
  also have "\<dots> = outside n True (e # post)"
    using assms(3) by (rule outside_inside)
  also have "\<dots> = outside n False post"
    using assms(4) markers_differ [of n] by simp
  also have "\<dots> = post"
    using outside_no_markers [OF assms(5), of "[]"] by simp
  finally show ?thesis .
qed

lemma outside_subseq: "subseq (outside n ins ls) ls"
  by (induction ls arbitrary: ins) auto

lemma collapse_blank_subseq: "subseq (collapse_blank prev ls) ls"
  by (induction ls arbitrary: prev) auto

lemma outside_no_marker_left:
  "l \<in> set (outside n ins ls) \<Longrightarrow> TrimSpace l \<noteq> startMarker n \<and> TrimSpace l \<noteq> endMarker n"
  by (induction ls arbitrary: ins) (auto split: if_splits)

lemma scan_tokens_Nil: "scan_tokens [] = []"
  by (simp add: scan_tokens_def)

subsection \<open>Lines of a text\<close>

lemma raw_lines_empty_iff: "raw_lines s = [] \<longleftrightarrow> s = []"
  by (cases s) (auto split: list.splits)

lemma raw_lines_append:
  "a = [] \<or> last a = NL \<Longrightarrow> raw_lines (a @ b) = raw_lines a @ raw_lines b"
proof (induction a)
  case Nil
  then show ?case by simp
next
  case (Cons x a)
  show ?case
  proof (cases "a = []")
    case True
    with Cons.prems show ?thesis by simp
  next
    case False
    with Cons.prems have "last a = NL" by simp
    with Cons.IH have ih: "raw_lines (a @ b) = raw_lines a @ raw_lines b" by simp
    from False obtain l ls where "raw_lines a = l # ls"
      by (cases "raw_lines a") (auto simp: raw_lines_empty_iff)
    with ih show ?thesis by simp
  qed
qed

lemma raw_lines_line: "NL \<notin> set l \<Longrightarrow> raw_lines (l @ NL # rest) = l # raw_lines rest"
  by (induction l) auto

lemma raw_lines_terminate:
  "s \<noteq> [] \<Longrightarrow> last s \<noteq> NL \<Longrightarrow> raw_lines (s @ [NL]) = raw_lines s"
proof (induction s)
  case Nil
  then show ?case by simp
next
  case (Cons x s)
  show ?case
  proof (cases "s = []")
    case True
    with Cons.prems show ?thesis by simp
  next
    case False
    with Cons.prems Cons.IH have "raw_lines (s @ [NL]) = raw_lines s" by simp
    then show ?thesis by simp
  qed
qed

lemma raw_lines_hd_prefix: "raw_lines s = l # ls \<Longrightarrow> prefix l s"
proof (induction s arbitrary: l ls)
  case Nil
  then show ?case by simp
next
  case (Cons c cs)
  then show ?case by (cases "raw_lines cs") (auto split: if_splits)
qed

lemma raw_lines_sublist: "l \<in> set (raw_lines s) \<Longrightarrow> sublist l s"
proof (induction s arbitrary: l)
  case Nil
  then show ?case by simp
next
  case (Cons c cs)
  show ?case
  proof (cases "c = NL")
    case True
    with Cons.prems have "l = [] \<or> l \<in> set (raw_lines cs)" by auto
    then show ?thesis using Cons.IH by (auto simp: sublist_Cons_right)
  next
    case False
    show ?thesis
    proof (cases "raw_lines cs")
      case Nil
      with False Cons.prems have "l = [c]" by simp
      then show ?thesis by (simp add: sublist_Cons_right)
    next
      case (Cons l0 ls0)
      with False Cons.prems have "l = c # l0 \<or> l \<in> set ls0" by auto
      then show ?thesis
      proof
        assume "l = c # l0"
        moreover from Cons have "prefix l0 cs" by (rule raw_lines_hd_prefix)
        ultimately show ?thesis by (simp add: sublist_Cons_right)
      next
        assume "l \<in> set ls0"
        with Cons have "l \<in> set (raw_lines cs)" by simp
        then have "sublist l cs" by (rule Cons.IH)
        then show ?thesis by (simp add: sublist_Cons_right)
      qed
    qed
  qed
qed

lemma sublist_chain: "sublist xs ys \<Longrightarrow> sublist ys zs \<Longrightarrow> sublist xs zs"
proof -
  assume "sublist xs ys" "sublist ys zs"
  then obtain p s p' s' where "ys = p @ xs @ s" "zs = p' @ ys @ s'"
    by (auto simp: sublist_def)
  then have "zs = (p' @ p) @ xs @ (s @ s')" by simp
  then show ?thesis unfolding sublist_def by blast
qed

lemma dropCR_prefix: "prefix (dropCR l) l"
  by (simp add: dropCR_def prefixeq_butlast)

lemma scan_tokens_sublist:
  assumes "l \<in> set (scan_tokens s)"
  shows "sublist l s"
proof -
  from assms obtain r where r: "r \<in> set (raw_lines s)" and l: "l = dropCR r"
    by (auto simp: scan_tokens_def dest: set_takeWhileD)
  from r have "sublist r s" by (rule raw_lines_sublist)
  moreover have "sublist l r" unfolding l using dropCR_prefix by (rule prefix_imp_sublist)
  ultimately show ?thesis by (rule sublist_chain [rotated])
qed

lemma strip_seqs_suffix: "suffix (strip_seqs ws s) s"
proof (induction ws s rule: strip_seqs.induct)
  case (1 ws)
  then show ?case by simp
next
  case (2 ws c cs)
  show ?case
  proof (cases "find (\<lambda>w. prefix w (c # cs)) ws")
    case None
    then show ?thesis by simp
  next
    case (Some w)
    with 2 have "suffix (strip_seqs ws (drop (length w - 1) cs)) (drop (length w - 1) cs)"
      by simp
    then have "suffix (strip_seqs ws (drop (length w - 1) cs)) cs"
      using suffix_drop suffix_order.trans by blast
    with Some show ?thesis by (simp add: suffix_Cons)
  qed
qed

lemma TrimSpace_sublist: "sublist (TrimSpace s) s"
proof -
  have "suffix (TrimLeftSpace s) s"
    unfolding TrimLeftSpace_def by (rule strip_seqs_suffix)
  moreover have "prefix (TrimRightSpace (TrimLeftSpace s)) (TrimLeftSpace s)"
    using strip_seqs_suffix [of "map rev space_seqs" "rev (TrimLeftSpace s)"]
    by (simp add: TrimRightSpace_def suffix_to_prefix)
  ultimately show ?thesis
    unfolding TrimSpace_def sublist_altdef' by blast
qed

lemma marker_line_in_content:
  assumes "l \<in> set (scan_tokens s)" "TrimSpace l = m"
  shows "Contains s m"
proof -
  have "sublist m l" using TrimSpace_sublist [of l] assms(2) by simp
  moreover have "sublist l s" using assms(1) by (rule scan_tokens_sublist)
  ultimately show ?thesis by (rule sublist_chain)
qed


subsection \<open>Marker lines\<close>

lemma TrimSpace_Nil: "TrimSpace [] = []"
  by (simp add: TrimSpace_def TrimLeftSpace_def TrimRightSpace_def)

lemma TrimLeftSpace_hash: "TrimLeftSpace (CHR ''#'' # s) = CHR ''#'' # s"
  by (simp add: TrimLeftSpace_def space_seqs_def)

lemma space_seqs_tail_no_SP: "w \<in> set (map rev space_seqs) \<Longrightarrow> SP \<notin> set (tl w)"
  by (auto simp: space_seqs_def)

lemma TrimRightSpace_after_SP:
  assumes "n \<noteq> []" "TrimRightSpace n = n"
  shows "TrimRightSpace (p @ SP # n) = p @ SP # n"
proof -
  let ?W = "map rev space_seqs"
  from assms(2) have stable: "strip_seqs ?W (rev n) = rev n"
    by (metis TrimRightSpace_def rev_rev_ident)
  from assms(1) obtain x xs where r: "rev n = x # xs" by (cases "rev n") auto
  have "\<not> prefix w (rev n @ SP # rev p)" if w: "w \<in> set ?W" for w
  proof
    assume "prefix w (rev n @ SP # rev p)"
    then have "prefix w (rev n) \<or> (\<exists>us. w = rev n @ us \<and> prefix us (SP # rev p))"
      by (simp add: prefix_append)
    moreover have "\<not> prefix w (rev n)"
      using strip_seqs_no_prefix [OF w, of "rev n"] stable assms(1) by simp
    ultimately obtain us where us: "w = rev n @ us" "prefix us (SP # rev p)" "us \<noteq> []"
      by auto
    then have "hd us = SP" by (cases us) auto
    with us r have "SP \<in> set (tl w)" by (cases us) auto
    with space_seqs_tail_no_SP [OF w] show False by simp
  qed
  then have "find (\<lambda>w. prefix w (x # xs @ SP # rev p)) ?W = None"
    using r by (auto simp: find_None_iff)
  then have "strip_seqs ?W (rev (p @ SP # n)) = rev (p @ SP # n)"
    using r by simp
  then show ?thesis by (simp add: TrimRightSpace_def)
qed

lemma TrimSpace_markers:
  assumes "n \<noteq> []" "TrimRightSpace n = n"
  shows "TrimSpace (startMarker n) = startMarker n" and "TrimSpace (endMarker n) = endMarker n"
proof -
  have "TrimSpace (''### START:'' @ SP # n) = ''### START:'' @ SP # n"
    using TrimRightSpace_after_SP [OF assms, of "''### START:''"]
    by (simp add: TrimSpace_def TrimLeftSpace_hash)
  then show "TrimSpace (startMarker n) = startMarker n"
    by (simp add: startMarker_def SectionStartPrefix_def)
  have "TrimSpace (''### END:'' @ SP # n) = ''### END:'' @ SP # n"
    using TrimRightSpace_after_SP [OF assms, of "''### END:''"]
    by (simp add: TrimSpace_def TrimLeftSpace_hash)
  then show "TrimSpace (endMarker n) = endMarker n"
    by (simp add: endMarker_def SectionEndPrefix_def)
qed

lemma dropCR_markers:
  assumes "n \<noteq> []" "TrimRightSpace n = n"
  shows "dropCR (startMarker n) = startMarker n" and "dropCR (endMarker n) = endMarker n"
proof -
  have "[CR] \<in> set space_seqs" by (simp add: space_seqs_def)
  with assms have "\<not> suffix [CR] n" using TrimRightSpace_no_suffix [of "[CR]" n] by simp
  with assms(1) have "last n \<noteq> CR" by (simp add: suffix_single)
  with assms(1) show "dropCR (startMarker n) = startMarker n"
    and "dropCR (endMarker n) = endMarker n"
    by (simp_all add: dropCR_def startMarker_def endMarker_def)
qed

lemma markers_nonempty: "startMarker n \<noteq> []" "endMarker n \<noteq> []"
  by (simp_all add: startMarker_def endMarker_def SectionStartPrefix_def)

lemma markers_no_NL:
  "NL \<notin> set n \<Longrightarrow> NL \<notin> set (startMarker n)" "NL \<notin> set n \<Longrightarrow> NL \<notin> set (endMarker n)"
  by (simp_all add: startMarker_def endMarker_def SectionStartPrefix_def SectionEndPrefix_def)

subsection \<open>The file that Add writes, line by line\<close>

lemma Add_build_eq:
  "Add_build content n c =
     (if content = [] then [] else content @ (if suffix [NL] content then [] else [NL]) @ [NL])
     @ startMarker n @ NL # (TrimSpace c @ [NL]) @ endMarker n @ [NL]"
  using TrimSpace_not_NL [of c] by (simp add: Add_build_def Let_def)

lemma raw_lines_separator:
  assumes "content \<noteq> []"
  shows "raw_lines (content @ (if suffix [NL] content then [] else [NL]) @ [NL])
           = raw_lines content @ [[]]"
proof (cases "suffix [NL] content")
  case True
  then have "last content = NL" by (simp add: suffix_single)
  then show ?thesis using True raw_lines_append [of content "[NL]"] by simp
next
  case False
  with assms have l: "last content \<noteq> NL" by (simp add: suffix_single)
  have "raw_lines ((content @ [NL]) @ [NL]) = raw_lines (content @ [NL]) @ raw_lines [NL]"
    by (rule raw_lines_append) simp
  with False raw_lines_terminate [OF assms l] show ?thesis by simp
qed

lemma raw_lines_Add_build:
  assumes "NL \<notin> set n"
  shows "raw_lines (Add_build content n c) =
           (if content = [] then [] else raw_lines content @ [[]])
           @ startMarker n # raw_lines (TrimSpace c @ [NL]) @ [endMarker n]"
proof -
  let ?pre = "if content = [] then [] else content @ (if suffix [NL] content then [] else [NL]) @ [NL]"
  have p: "?pre = [] \<or> last ?pre = NL" by simp
  have "raw_lines (Add_build content n c)
          = raw_lines ?pre @ raw_lines (startMarker n @ NL # (TrimSpace c @ [NL]) @ endMarker n @ [NL])"
    unfolding Add_build_eq using p by (rule raw_lines_append)
  also have "raw_lines (startMarker n @ NL # (TrimSpace c @ [NL]) @ endMarker n @ [NL])
          = startMarker n # raw_lines ((TrimSpace c @ [NL]) @ endMarker n @ [NL])"
    using assms by (intro raw_lines_line markers_no_NL)
  also have "raw_lines ((TrimSpace c @ [NL]) @ endMarker n @ [NL])
          = raw_lines (TrimSpace c @ [NL]) @ raw_lines (endMarker n @ [NL])"
    by (rule raw_lines_append) simp
  also have "raw_lines (endMarker n @ [NL]) = [endMarker n]"
    using raw_lines_line [of "endMarker n" "[]"] assms by (simp add: markers_no_NL)
  also have "raw_lines ?pre = (if content = [] then [] else raw_lines content @ [[]])"
    using raw_lines_separator [of content] by simp
  finally show ?thesis by simp
qed

lemma scan_tokens_all_fit:
  assumes "list_all fits (raw_lines s)"
  shows "scan_tokens s = map dropCR (raw_lines s)"
proof -
  from assms have tw: "takeWhile fits (raw_lines s) = raw_lines s"
    by (simp add: takeWhile_eq_all_conv list_all_iff)
  show ?thesis unfolding scan_tokens_def tw by (rule refl)
qed


subsection \<open>Deleting what was added\<close>

lemma Delete_writes:
  assumes "Read d = Inr content"
    and "\<not> scan_err content"
    and "list_ex (\<lambda>line. TrimSpace line = startMarker n) (scan_tokens content)"
    and "\<not> unwritable d"
  shows "Delete n d =
           (None, d\<lparr>contents := Some (finalContent (join_lines
              (collapse_blank False (outside n False (scan_tokens content)))))\<rparr>)"
proof -
  let ?st = "foldl (del_step n) del_init (scan_tokens content)"
  from assms(3) have ne: "content \<noteq> []" by (auto simp: scan_tokens_Nil)
  from assms(3) have f: "foundSection ?st" by (simp add: del_found list_ex_iff)
  have r: "result ?st = join_lines (collapse_blank False (outside n False (scan_tokens content)))"
    by (simp add: del_result del_init_def)
  have "Delete n d = write_file (finalContent (result ?st)) d"
    using assms(1,2) ne f by (simp add: Delete_def Let_def)
  with assms(4) r show ?thesis by (simp add: write_file_def)
qed

lemma dropCR_Nil: "dropCR [] = []"
  by (simp add: dropCR_def)

lemma collapse_blank_snoc:
  "collapse_blank prev (ls @ [[]]) = collapse_blank prev ls
   \<or> collapse_blank prev (ls @ [[]]) = collapse_blank prev ls @ [[]]"
  by (induction ls arbitrary: prev) (auto simp: TrimSpace_Nil)

lemma join_lines_append: "join_lines (a @ b) = join_lines a @ join_lines b"
  by (simp add: join_lines_def)

lemma finalContent_NL: "finalContent (r @ [NL]) = finalContent r"
  by (simp add: finalContent_def TrimRight_def)

lemma finalContent_blank_line:
  "finalContent (join_lines (collapse_blank prev (ls @ [[]])))
     = finalContent (join_lines (collapse_blank prev ls))"
  using collapse_blank_snoc [of prev ls]
  by (auto simp: join_lines_append join_lines_Cons join_lines_Nil finalContent_NL)

section \<open>Facts about the parser of repository URLs\<close>




























section \<open>The claims\<close>

text \<open>
  C3.  The claim: \<open>HasSection(n)\<close> is true exactly when some line of the file, trimmed, equals
  the start marker of \<open>n\<close>.  The code tests \<open>strings.Contains\<close> on the whole content, so a
  file that holds only the section \<open>C++\<close> is reported to hold a section \<open>C\<close>, although
  none of its three lines, trimmed, is the start marker of \<open>C\<close>.
\<close>

theorem HasSection_substring:
  "HasSection ''C'' (on_disk (join_lines [''### START: C++'', ''*.o'', ''### END: C++''])) = Inr True
   \<and> scan_tokens (join_lines [''### START: C++'', ''*.o'', ''### END: C++''])
       = [''### START: C++'', ''*.o'', ''### END: C++'']
   \<and> map TrimSpace [''### START: C++'', ''*.o'', ''### END: C++'']
       = [''### START: C++'', ''*.o'', ''### END: C++'']
   \<and> startMarker ''C'' = ''### START: C''"
  by (simp add: string_defs scanner_defs marker_defs editor_defs)

text \<open>
  C5, as stated, fails on a file with a line of 64 KiB: no section is found in the file, yet
  \<open>Delete\<close> returns the scanner's error, not "section not found".
\<close>

theorem Delete_long_line_counterexample:
  "\<not> Contains long_line (startMarker ''Go'')
   \<and> Delete ''Go'' (on_disk long_line) = (Some ScanFailed, on_disk long_line)"
proof
  show "\<not> Contains long_line (startMarker ''Go'')"
  proof
    assume "Contains long_line (startMarker ''Go'')"
    then have "set (startMarker ''Go'') \<subseteq> set long_line"
      by (rule set_mono_sublist)
    then show False by (simp add: startMarker_def SectionStartPrefix_def long_line_def)
  qed
next
  show "Delete ''Go'' (on_disk long_line) = (Some ScanFailed, on_disk long_line)"
    using long_line_scan_err long_line_nonempty
    by (simp add: Delete_def Read_def on_disk_def Let_def)
qed


text \<open>
  C5, amended.  Of a file that can be read: when none of its lines is too long for the
  scanner and no line, trimmed, is the start marker of \<open>n\<close> (the empty and the absent file
  included), \<open>Delete(n)\<close> returns the error "section not found" and leaves the disk as it
  was; when some line has \<open>MaxScanTokenSize\<close> = 65536 bytes or more, \<open>Delete(n)\<close> returns
  the scanner's error, whatever the file holds, and leaves the disk as it was.
\<close>

theorem Delete_not_found:
  assumes "Read d = Inr content"
  shows "(\<not> scan_err content
            \<and> (\<forall>line \<in> set (scan_tokens content). TrimSpace line \<noteq> startMarker n)
          \<longrightarrow> Delete n d = (Some (SectionNotFound n), d))
       \<and> (scan_err content \<longrightarrow> Delete n d = (Some ScanFailed, d))
       \<and> scan_err content = list_ex (\<lambda>l. 65536 \<le> length l) (raw_lines content)"
proof (intro conjI impI)
  assume h: "\<not> scan_err content
            \<and> (\<forall>line \<in> set (scan_tokens content). TrimSpace line \<noteq> startMarker n)"
  then have "\<not> foundSection (foldl (del_step n) del_init (scan_tokens content))"
    by (simp add: del_found del_init_def)
  with assms h show "Delete n d = (Some (SectionNotFound n), d)"
    by (simp add: Delete_def Let_def)
next
  assume e: "scan_err content"
  then have "content \<noteq> []" by (auto simp: scan_err_def)
  with assms e show "Delete n d = (Some ScanFailed, d)"
    by (simp add: Delete_def Let_def)
next
  show "scan_err content = list_ex (\<lambda>l. 65536 \<le> length l) (raw_lines content)"
  proof -
    have "(\<not> fits l) = (65536 \<le> length l)" for l :: string
      by (simp add: fits_def MaxScanTokenSize_def not_less)
    then show ?thesis
      by (simp add: scan_err_def list_all_iff list_ex_iff)
  qed
qed

theorem Delete_not_found_witness:
  "Read (on_disk (join_lines [''### START: Go'', ''*.exe'', ''### END: Go'']))
     = Inr (join_lines [''### START: Go'', ''*.exe'', ''### END: Go''])
   \<and> \<not> scan_err (join_lines [''### START: Go'', ''*.exe'', ''### END: Go''])
   \<and> scan_tokens (join_lines [''### START: Go'', ''*.exe'', ''### END: Go''])
       = [''### START: Go'', ''*.exe'', ''### END: Go'']
   \<and> list_all (\<lambda>line. TrimSpace line \<noteq> startMarker ''Python'')
         [''### START: Go'', ''*.exe'', ''### END: Go'']
   \<and> Delete ''Python'' (on_disk (join_lines [''### START: Go'', ''*.exe'', ''### END: Go'']))
       = (Some (SectionNotFound ''Python''),
          on_disk (join_lines [''### START: Go'', ''*.exe'', ''### END: Go'']))
   \<and> Read no_file = Inr [] \<and> \<not> scan_err [] \<and> scan_tokens [] = []
   \<and> Delete ''Go'' no_file = (Some (SectionNotFound ''Go''), no_file)
   \<and> Read (on_disk long_line) = Inr long_line \<and> scan_err long_line
   \<and> Delete ''Go'' (on_disk long_line) = (Some ScanFailed, on_disk long_line)"
proof -
  let ?c = "join_lines [''### START: Go'', ''*.exe'', ''### END: Go'']"
  have r: "Read (on_disk ?c) = Inr ?c" by (simp add: editor_defs)
  have e: "\<not> scan_err ?c" by (simp add: string_defs scanner_defs)
  have s: "scan_tokens ?c = [''### START: Go'', ''*.exe'', ''### END: Go'']"
    by (simp add: string_defs scanner_defs)
  have t: "list_all (\<lambda>line. TrimSpace line \<noteq> startMarker ''Python'')
         [''### START: Go'', ''*.exe'', ''### END: Go'']"
    by (simp add: string_defs marker_defs)
  then have t': "\<forall>line \<in> set (scan_tokens ?c). TrimSpace line \<noteq> startMarker ''Python''"
    unfolding s by (simp add: list_all_iff)
  have r0: "Read no_file = Inr []" by (simp add: Read_def no_file_def)
  have e0: "\<not> scan_err []" by (simp add: scan_err_def)
  have s0: "scan_tokens [] = []" by (simp add: scan_tokens_def)
  have rl: "Read (on_disk long_line) = Inr long_line" by (simp add: editor_defs)
  from Delete_not_found [OF r, of "''Python''"] e t'
  have a: "Delete ''Python'' (on_disk ?c) = (Some (SectionNotFound ''Python''), on_disk ?c)"
    by blast
  from Delete_not_found [OF r0, of "''Go''"] e0 s0
  have b: "Delete ''Go'' no_file = (Some (SectionNotFound ''Go''), no_file)"
    by simp
  from Delete_not_found [OF rl, of "''Go''"] long_line_scan_err
  have c: "Delete ''Go'' (on_disk long_line) = (Some ScanFailed, on_disk long_line)"
    by blast
  from r e s t a r0 e0 s0 b rl long_line_scan_err c show ?thesis by blast
qed

text \<open>
  C6.  After a successful \<open>Add(n, c1)\<close>, a second \<open>Add(n, c2)\<close> returns the error "section
  already exists" and leaves the disk as it was, and \<open>HasSection(n)\<close> is true.
\<close>

theorem Add_twice:
  assumes "Add n c1 d = (None, d')"
  shows "Add n c2 d' = (Some (SectionExists n), d') \<and> HasSection n d' = Inr True"
proof -
  from assms obtain cur where r: "Read d = Inr cur"
    and d': "d' = d\<lparr>contents := Some (Add_build cur n c1)\<rparr>"
    by (auto simp: Add_success)
  from r have "\<not> unreadable d" by (simp add: Read_Inr)
  then have "Read d' = Inr (Add_build cur n c1)" by (simp add: d' Read_after_write)
  then have h: "HasSection n d' = Inr True"
    by (simp add: HasSection_def Add_build_Contains)
  then show ?thesis by (simp add: Add_def)
qed

theorem Add_twice_witness:
  "Add ''Go'' ''*.exe'' no_file
     = (None, on_disk (join_lines [''### START: Go'', ''*.exe'', ''### END: Go'']))
   \<and> Add ''Go'' ''bin/'' (on_disk (join_lines [''### START: Go'', ''*.exe'', ''### END: Go'']))
     = (Some (SectionExists ''Go''),
        on_disk (join_lines [''### START: Go'', ''*.exe'', ''### END: Go'']))
   \<and> HasSection ''Go'' (on_disk (join_lines [''### START: Go'', ''*.exe'', ''### END: Go'']))
     = Inr True"
proof -
  have h: "Add ''Go'' ''*.exe'' no_file
     = (None, on_disk (join_lines [''### START: Go'', ''*.exe'', ''### END: Go'']))"
    by (simp add: string_defs marker_defs editor_defs)
  show ?thesis using Add_twice [OF h, of "''bin/''"] h by simp
qed

text \<open>
  C8.  When Local's listing succeeds, the aggregated \<open>List()\<close> is Local's entries followed by
  the entries of each remote in configured order, without the entries whose lower-cased name
  is the lower-cased name of a Local entry and without the remotes whose listing fails; so
  the entries of the aggregate that bear the name of a Local entry are exactly Local's.
\<close>

theorem List_local_first:
  assumes "srcList (local sm) = Inr localFiles"
  shows "SourceManager_List lower sm =
           Inr (localFiles @
                concat (map (\<lambda>src. case srcList src of
                                      Inl err \<Rightarrow> []
                                    | Inr files \<Rightarrow>
                                        filter (\<lambda>f. lower (Name f) \<notin> lower ` Name ` set localFiles) files)
                            (remote sm)))
       \<and> (\<forall>allFiles. SourceManager_List lower sm = Inr allFiles \<longrightarrow>
             filter (\<lambda>f. lower (Name f) \<in> lower ` Name ` set localFiles) allFiles = localFiles)"
proof -
  have eq: "SourceManager_List lower sm =
           Inr (localFiles @
                concat (map (\<lambda>src. case srcList src of
                                      Inl err \<Rightarrow> []
                                    | Inr files \<Rightarrow>
                                        filter (\<lambda>f. lower (Name f) \<notin> lower ` Name ` set localFiles) files)
                            (remote sm)))"
    using assms by (simp add: SourceManager_List_def List_local_loop_eq List_remote_fold)
  have "filter (\<lambda>f. lower (Name f) \<in> lower ` Name ` set localFiles) localFiles = localFiles"
    by (simp add: filter_id_conv)
  with eq show ?thesis by (simp add: filter_remote_none)
qed


theorem List_local_first_witness:
  "srcList \<lparr>srcName = ''local'', srcList = Inr [template ''myproject'' ''local'']\<rparr>
     = Inr [template ''myproject'' ''local'']
   \<and> SourceManager_List ToLower_ascii
     \<lparr>local = \<lparr>srcName = ''local'', srcList = Inr [template ''myproject'' ''local'']\<rparr>,
      remote = [\<lparr>srcName = ''github'',
                 srcList = Inr [template ''Go'' ''github'', template ''MyProject'' ''github'']\<rparr>,
                \<lparr>srcName = ''toptal'', srcList = Inl (SourceError ''timeout'')\<rparr>],
      sources = []\<rparr>
   = Inr [template ''myproject'' ''local'', template ''Go'' ''github'']"
  using List_local_first [of
     "\<lparr>local = \<lparr>srcName = ''local'', srcList = Inr [template ''myproject'' ''local'']\<rparr>,
      remote = [\<lparr>srcName = ''github'',
                 srcList = Inr [template ''Go'' ''github'', template ''MyProject'' ''github'']\<rparr>,
                \<lparr>srcName = ''toptal'', srcList = Inl (SourceError ''timeout'')\<rparr>],
      sources = []\<rparr>"
     "[template ''myproject'' ''local'']" ToLower_ascii]
  by (simp add: template_def ToLower_ascii_def)

text \<open>
  C9.  \<open>ListBySource\<close> never returns an error, and its map has an entry for the name of every
  configured source and for nothing else; the sources bearing distinct names, the entry of a
  failing source is its error with an empty file list, the entry of a succeeding source is its
  files with no error.
\<close>

theorem ListBySource_every_source:
  assumes "distinct (map srcName (sources sm))"
  shows "snd (SourceManager_ListBySource sm) = None
       \<and> dom (fst (SourceManager_ListBySource sm)) = srcName ` set (sources sm)
       \<and> (\<forall>src \<in> set (sources sm).
            fst (SourceManager_ListBySource sm) (srcName src) =
              Some (case srcList src of
                      Inl err \<Rightarrow> \<lparr>Files = [], Error = Some err\<rparr>
                    | Inr files \<Rightarrow> \<lparr>Files = files, Error = None\<rparr>))"
  using assms
  by (simp add: SourceManager_ListBySource_def ListBySource_fold_dom ListBySource_fold_entry)


theorem ListBySource_every_source_witness:
  "distinct (map srcName
      [\<lparr>srcName = ''github'', srcList = Inl (SourceError ''404 not found'')\<rparr>,
       \<lparr>srcName = ''local'', srcList = Inr [template ''Custom'' ''local'']\<rparr>])
   \<and> snd (SourceManager_ListBySource
       \<lparr>local = \<lparr>srcName = ''local'', srcList = Inr [template ''Custom'' ''local'']\<rparr>,
        remote = [],
        sources = [\<lparr>srcName = ''github'', srcList = Inl (SourceError ''404 not found'')\<rparr>,
                   \<lparr>srcName = ''local'', srcList = Inr [template ''Custom'' ''local'']\<rparr>]\<rparr>) = None
   \<and> fst (SourceManager_ListBySource
       \<lparr>local = \<lparr>srcName = ''local'', srcList = Inr [template ''Custom'' ''local'']\<rparr>,
        remote = [],
        sources = [\<lparr>srcName = ''github'', srcList = Inl (SourceError ''404 not found'')\<rparr>,
                   \<lparr>srcName = ''local'', srcList = Inr [template ''Custom'' ''local'']\<rparr>]\<rparr>) ''github''
       = Some \<lparr>Files = [], Error = Some (SourceError ''404 not found'')\<rparr>
   \<and> fst (SourceManager_ListBySource
       \<lparr>local = \<lparr>srcName = ''local'', srcList = Inr [template ''Custom'' ''local'']\<rparr>,
        remote = [],
        sources = [\<lparr>srcName = ''github'', srcList = Inl (SourceError ''404 not found'')\<rparr>,
                   \<lparr>srcName = ''local'', srcList = Inr [template ''Custom'' ''local'']\<rparr>]\<rparr>) ''local''
       = Some \<lparr>Files = [template ''Custom'' ''local''], Error = None\<rparr>"
  using ListBySource_every_source [of
      "\<lparr>local = \<lparr>srcName = ''local'', srcList = Inr [template ''Custom'' ''local'']\<rparr>,
        remote = [],
        sources = [\<lparr>srcName = ''github'', srcList = Inl (SourceError ''404 not found'')\<rparr>,
                   \<lparr>srcName = ''local'', srcList = Inr [template ''Custom'' ''local'']\<rparr>]\<rparr>"]
  by simp

text \<open>
  C10, as stated, fails for \<open>Add\<close> with a section name that ends in a newline: the end
  marker line is then followed by two newlines.
\<close>

theorem Add_two_newlines_counterexample:
  "Add (''Go'' @ [NL]) ''*.exe'' no_file
     = (None, on_disk (''### START: Go'' @ [NL, NL] @ ''*.exe'' @ [NL] @ ''### END: Go'' @ [NL, NL]))
   \<and> HasSuffix (''### START: Go'' @ [NL, NL] @ ''*.exe'' @ [NL] @ ''### END: Go'' @ [NL, NL]) [NL, NL]
   \<and> \<not> ends_with_one_NL
         (''### START: Go'' @ [NL, NL] @ ''*.exe'' @ [NL] @ ''### END: Go'' @ [NL, NL])"
  by (simp add: string_defs marker_defs editor_defs ends_with_one_NL_def)

text \<open>
  C10, amended.  After a successful \<open>Add\<close> whose section name does not end in a newline the
  file ends with exactly one newline; after a successful \<open>Delete\<close> or \<open>RemovePattern\<close> the
  file is empty or ends with exactly one newline; a successful \<open>AddPatterns\<close> either writes
  nothing or leaves a file that ends with exactly one newline.
\<close>

theorem written_content_one_trailing_newline:
  "(Add n c d = (None, d') \<and> \<not> HasSuffix n [NL]
      \<longrightarrow> (\<exists>x. contents d' = Some x \<and> ends_with_one_NL x))
 \<and> (Delete m e = (None, e')
      \<longrightarrow> (\<exists>x. contents e' = Some x \<and> (x = [] \<or> ends_with_one_NL x)))
 \<and> (AddPatterns ps f = ((added, skipped, None), f')
      \<longrightarrow> f' = f \<or> (\<exists>x. contents f' = Some x \<and> ends_with_one_NL x))
 \<and> (RemovePattern p g = (None, g')
      \<longrightarrow> (\<exists>x. contents g' = Some x \<and> (x = [] \<or> ends_with_one_NL x)))"
proof (intro conjI impI)
  assume "Add n c d = (None, d') \<and> \<not> HasSuffix n [NL]"
  then show "\<exists>x. contents d' = Some x \<and> ends_with_one_NL x"
    using Add_success_shape by blast
next
  assume "Delete m e = (None, e')"
  then show "\<exists>x. contents e' = Some x \<and> (x = [] \<or> ends_with_one_NL x)"
    by (rule Delete_success_shape)
next
  assume "AddPatterns ps f = ((added, skipped, None), f')"
  then show "f' = f \<or> (\<exists>x. contents f' = Some x \<and> ends_with_one_NL x)"
    unfolding AddPatterns_def by (rule AddPatterns_loop_shape)
next
  assume "RemovePattern p g = (None, g')"
  then have "Delete (IgnoredSectionPrefix @ TrimSpace p) g = (None, g')"
    by (simp add: RemovePattern_def Let_def split: if_splits)
  then show "\<exists>x. contents g' = Some x \<and> (x = [] \<or> ends_with_one_NL x)"
    by (rule Delete_success_shape)
qed


theorem written_content_one_trailing_newline_witness:
  "(Add ''Go'' ''*.exe'' no_file
      = (None, on_disk (join_lines [''### START: Go'', ''*.exe'', ''### END: Go''])) \<and> \<not> HasSuffix ''Go'' [NL])
   \<and> ends_with_one_NL (join_lines [''### START: Go'', ''*.exe'', ''### END: Go''])
   \<and> Delete ''Go'' (on_disk (join_lines [''*.log'', ''### START: Go'', ''*.exe'', ''### END: Go'']))
      = (None, on_disk (join_lines [''*.log'']))
   \<and> ends_with_one_NL (join_lines [''*.log''])
   \<and> AddPatterns [''dist/''] no_file
      = (([''dist/''], [], None),
         on_disk (join_lines [''### START: ignored/dist/'', ''dist/'', ''### END: ignored/dist/'']))
   \<and> ends_with_one_NL (join_lines [''### START: ignored/dist/'', ''dist/'', ''### END: ignored/dist/''])
   \<and> RemovePattern ''dist/''
        (on_disk (join_lines [''### START: ignored/dist/'', ''dist/'', ''### END: ignored/dist/'']))
      = (None, on_disk [])"
proof -
  have a: "Add ''Go'' ''*.exe'' no_file
      = (None, on_disk (join_lines [''### START: Go'', ''*.exe'', ''### END: Go''])) \<and> \<not> HasSuffix ''Go'' [NL]"
    by (simp add: string_defs marker_defs editor_defs)
  have b: "Delete ''Go'' (on_disk (join_lines [''*.log'', ''### START: Go'', ''*.exe'', ''### END: Go'']))
      = (None, on_disk (join_lines [''*.log'']))"
    by (simp add: string_defs scanner_defs marker_defs editor_defs)
  have c: "AddPatterns [''dist/''] no_file
      = (([''dist/''], [], None),
         on_disk (join_lines [''### START: ignored/dist/'', ''dist/'', ''### END: ignored/dist/'']))"
    by (simp add: AddPatterns_def string_defs marker_defs editor_defs)
  have d: "RemovePattern ''dist/''
        (on_disk (join_lines [''### START: ignored/dist/'', ''dist/'', ''### END: ignored/dist/'']))
      = (None, on_disk [])"
    by (simp add: RemovePattern_def string_defs scanner_defs marker_defs editor_defs)
  note t = written_content_one_trailing_newline
    [of "''Go''" "''*.exe''" no_file
        "on_disk (join_lines [''### START: Go'', ''*.exe'', ''### END: Go''])"
        "''Go''" "on_disk (join_lines [''*.log'', ''### START: Go'', ''*.exe'', ''### END: Go''])"
        "on_disk (join_lines [''*.log''])"
        "[''dist/'']" no_file "[''dist/'']" "[]"
        "on_disk (join_lines [''### START: ignored/dist/'', ''dist/'', ''### END: ignored/dist/''])"
        "''dist/''"
        "on_disk (join_lines [''### START: ignored/dist/'', ''dist/'', ''### END: ignored/dist/''])"
        "on_disk []"]
  from t a have a': "ends_with_one_NL (join_lines [''### START: Go'', ''*.exe'', ''### END: Go''])"
    by (simp add: on_disk_def)
  from t b have b': "ends_with_one_NL (join_lines [''*.log''])"
    by (simp add: on_disk_def join_lines_def)
  from t c have c': "ends_with_one_NL
      (join_lines [''### START: ignored/dist/'', ''dist/'', ''### END: ignored/dist/''])"
    by (simp add: on_disk_def no_file_def)
  from a a' b b' c c' d show ?thesis by simp
qed

text \<open>
  C7.  The claim: a pattern is recorded as skipped if a section with its wrapped name exists,
  and is added otherwise.  \<open>AddPatterns\<close> asks \<open>HasSection\<close>, which tests for a substring
  (see C3): in a file that holds only the section \<open>ignored/dist/\<close>, made by adding the
  pattern \<open>dist/\<close>, no line, trimmed, is the start marker of \<open>ignored/dist\<close>, yet the pattern
  \<open>dist\<close> is recorded as skipped and nothing is written.
\<close>

theorem AddPatterns_skips_absent_section:
  "AddPatterns [''dist/''] no_file
     = (([''dist/''], [], None),
        on_disk (join_lines [''### START: ignored/dist/'', ''dist/'', ''### END: ignored/dist/'']))
   \<and> AddPatterns [''dist'']
        (on_disk (join_lines [''### START: ignored/dist/'', ''dist/'', ''### END: ignored/dist/'']))
     = (([], [''dist''], None),
        on_disk (join_lines [''### START: ignored/dist/'', ''dist/'', ''### END: ignored/dist/'']))
   \<and> scan_tokens (join_lines [''### START: ignored/dist/'', ''dist/'', ''### END: ignored/dist/''])
       = [''### START: ignored/dist/'', ''dist/'', ''### END: ignored/dist/'']
   \<and> map TrimSpace [''### START: ignored/dist/'', ''dist/'', ''### END: ignored/dist/'']
       = [''### START: ignored/dist/'', ''dist/'', ''### END: ignored/dist/'']
   \<and> startMarker (IgnoredSectionPrefix @ ''dist'') = ''### START: ignored/dist''"
  by (simp add: AddPatterns_def string_defs scanner_defs marker_defs editor_defs
        sublist_Cons_right)




text \<open>
  C2, as stated, fails: blank-line runs are collapsed inside the other sections too.  Here
  section \<open>A\<close> holds two consecutive blank lines; deleting section \<open>B\<close> leaves one of them,
  while the deletion as the claim words it keeps the content of \<open>A\<close> as it was.
\<close>

theorem Delete_collapses_inside_sections_counterexample:
  "Delete ''B'' (on_disk (join_lines
       [''### START: A'', ''x'', '''', '''', ''y'', ''### END: A'',
        ''### START: B'', ''z'', ''### END: B'']))
     = (None, on_disk (join_lines [''### START: A'', ''x'', '''', ''y'', ''### END: A'']))
   \<and> Delete_as_stated ''B'' (join_lines
       [''### START: A'', ''x'', '''', '''', ''y'', ''### END: A'',
        ''### START: B'', ''z'', ''### END: B''])
     = join_lines [''### START: A'', ''x'', '''', '''', ''y'', ''### END: A'']
   \<and> join_lines [''### START: A'', ''x'', '''', ''y'', ''### END: A'']
     \<noteq> join_lines [''### START: A'', ''x'', '''', '''', ''y'', ''### END: A'']"
  by (simp add: Delete_as_stated_def string_defs scanner_defs marker_defs editor_defs)

text \<open>
  C2, amended.  When the file can be read and written, none of its lines is too long for the
  scanner and some line, trimmed, is the start marker of \<open>n\<close>, \<open>Delete(n)\<close> succeeds and
  writes the retained lines, each followed by a newline, with the trailing newlines, tabs and
  spaces replaced by one newline (or by nothing, if nothing else is left).  The retained lines
  are lines of the file, in order and verbatim but for a carriage return before the newline;
  no marker line of \<open>n\<close> is among them nor any line between a start marker of \<open>n\<close> and its
  next end marker, so that of a file with one section \<open>n\<close> exactly the lines before and after
  the section are retained, before the blank lines are collapsed: of the retained lines, a
  blank line that follows a blank line is dropped, wherever it stands.
\<close>

theorem Delete_removes_section:
  assumes "Read d = Inr content"
    and "\<not> scan_err content"
    and "list_ex (\<lambda>line. TrimSpace line = startMarker n) (scan_tokens content)"
    and "\<not> unwritable d"
  shows "Delete n d =
           (None, d\<lparr>contents := Some (finalContent (join_lines
              (collapse_blank False (outside n False (scan_tokens content)))))\<rparr>)
       \<and> subseq (collapse_blank False (outside n False (scan_tokens content))) (scan_tokens content)
       \<and> (\<forall>l \<in> set (outside n False (scan_tokens content)).
             TrimSpace l \<noteq> startMarker n \<and> TrimSpace l \<noteq> endMarker n)
       \<and> (\<forall>pre s body e post.
             scan_tokens content = pre @ s # body @ e # post
             \<and> (\<forall>l \<in> set pre \<union> set post. TrimSpace l \<noteq> startMarker n \<and> TrimSpace l \<noteq> endMarker n)
             \<and> TrimSpace s = startMarker n \<and> TrimSpace e = endMarker n
             \<and> (\<forall>l \<in> set body. TrimSpace l \<noteq> endMarker n)
             \<longrightarrow> outside n False (scan_tokens content) = pre @ post)
       \<and> (finalContent (join_lines
              (collapse_blank False (outside n False (scan_tokens content)))) = []
          \<or> ends_with_one_NL (finalContent (join_lines
              (collapse_blank False (outside n False (scan_tokens content))))))"
proof -
  have "subseq (collapse_blank False (outside n False (scan_tokens content)))
      (scan_tokens content)"
    using collapse_blank_subseq outside_subseq by (rule subseq_order.trans)
  moreover have "\<forall>l \<in> set (outside n False (scan_tokens content)).
             TrimSpace l \<noteq> startMarker n \<and> TrimSpace l \<noteq> endMarker n"
    using outside_no_marker_left by blast
  moreover have "\<forall>pre s body e post.
             scan_tokens content = pre @ s # body @ e # post
             \<and> (\<forall>l \<in> set pre \<union> set post. TrimSpace l \<noteq> startMarker n \<and> TrimSpace l \<noteq> endMarker n)
             \<and> TrimSpace s = startMarker n \<and> TrimSpace e = endMarker n
             \<and> (\<forall>l \<in> set body. TrimSpace l \<noteq> endMarker n)
             \<longrightarrow> outside n False (scan_tokens content) = pre @ post"
    by (auto simp: outside_section)
  ultimately show ?thesis using Delete_writes [OF assms] finalContent_shape by blast
qed

theorem Delete_removes_section_witness:
  "Read (on_disk (join_lines
       [''*.log'', '''', ''### START: Go'', ''*.exe'', ''### END: Go'', '''', '''', ''bin/'']))
     = Inr (join_lines
       [''*.log'', '''', ''### START: Go'', ''*.exe'', ''### END: Go'', '''', '''', ''bin/''])
   \<and> \<not> scan_err (join_lines
       [''*.log'', '''', ''### START: Go'', ''*.exe'', ''### END: Go'', '''', '''', ''bin/''])
   \<and> list_ex (\<lambda>line. TrimSpace line = startMarker ''Go'') (scan_tokens (join_lines
       [''*.log'', '''', ''### START: Go'', ''*.exe'', ''### END: Go'', '''', '''', ''bin/'']))
   \<and> \<not> unwritable (on_disk (join_lines
       [''*.log'', '''', ''### START: Go'', ''*.exe'', ''### END: Go'', '''', '''', ''bin/'']))
   \<and> Delete ''Go'' (on_disk (join_lines
       [''*.log'', '''', ''### START: Go'', ''*.exe'', ''### END: Go'', '''', '''', ''bin/'']))
     = (None, on_disk (join_lines [''*.log'', '''', ''bin/'']))"
proof -
  let ?c = "join_lines
       [''*.log'', '''', ''### START: Go'', ''*.exe'', ''### END: Go'', '''', '''', ''bin/'']"
  have r: "Read (on_disk ?c) = Inr ?c" by (simp add: editor_defs)
  have e: "\<not> scan_err ?c" by (simp add: string_defs scanner_defs)
  have f: "list_ex (\<lambda>line. TrimSpace line = startMarker ''Go'') (scan_tokens ?c)"
    by (simp add: string_defs scanner_defs marker_defs)
  have w: "\<not> unwritable (on_disk ?c)" by (simp add: on_disk_def)
  from Delete_removes_section [OF r e f w]
  have "Delete ''Go'' (on_disk ?c) =
          (None, (on_disk ?c)\<lparr>contents := Some (finalContent (join_lines
              (collapse_blank False (outside ''Go'' False (scan_tokens ?c)))))\<rparr>)"
    by (rule conjunct1)
  also have "\<dots> = (None, on_disk (join_lines [''*.log'', '''', ''bin/'']))"
    by (simp add: string_defs scanner_defs marker_defs editor_defs)
  finally show ?thesis using r e f w by simp
qed

text \<open>
  C1, as stated, fails for a section name that ends in white space: \<open>Add\<close> writes the marker
  lines with the name as given, \<open>Delete\<close> compares the trimmed line with the untrimmed marker
  and finds no section, and the file keeps the section that was added.
\<close>

theorem Add_then_Delete_trailing_space_counterexample:
  "Read no_file = Inr []
   \<and> \<not> Contains [] (startMarker ''Go '')
   \<and> Add ''Go '' ''*.exe'' no_file
       = (None, on_disk (join_lines [''### START: Go '', ''*.exe'', ''### END: Go '']))
   \<and> Delete ''Go '' (on_disk (join_lines [''### START: Go '', ''*.exe'', ''### END: Go '']))
       = (Some (SectionNotFound ''Go ''),
          on_disk (join_lines [''### START: Go '', ''*.exe'', ''### END: Go '']))
   \<and> normalize_text (join_lines [''### START: Go '', ''*.exe'', ''### END: Go ''])
       = join_lines [''### START: Go '', ''*.exe'', ''### END: Go'']
   \<and> normalize_text [] = []
   \<and> join_lines [''### START: Go '', ''*.exe'', ''### END: Go''] \<noteq> []"
  by (simp add: normalize_text_def string_defs scanner_defs marker_defs editor_defs)

text \<open>
  C1, amended.  Let the file be readable and writable with content \<open>C\<close>, in which the start
  marker of \<open>n\<close> does not occur and no line, trimmed, is the end marker of \<open>n\<close>; let \<open>n\<close> be
  non-empty, without a newline and not ending in white space; let no line of the added
  content, trimmed, be the end marker of \<open>n\<close>, and no line of the file that \<open>Add\<close> writes be
  too long for the scanner.  Then \<open>Add(n, content)\<close> and \<open>Delete(n)\<close> both succeed and leave
  \<open>C\<close> normalized: its lines each ended by one newline (a carriage return before the
  newline dropped), every blank line that follows a blank line dropped, and the trailing
  newlines, tabs and spaces replaced by one newline, or by nothing if nothing else is left.
\<close>

theorem Add_then_Delete:
  assumes "Read d = Inr content" and "\<not> unwritable d"
    and "\<not> Contains content (startMarker n)"
    and "n \<noteq> []" and "NL \<notin> set n" and "TrimRightSpace n = n"
    and "\<not> scan_err (Add_build content n c)"
    and "\<forall>l \<in> set (scan_tokens content). TrimSpace l \<noteq> endMarker n"
    and "\<forall>l \<in> set (scan_tokens (TrimSpace c)). TrimSpace l \<noteq> endMarker n"
  shows "Add n c d = (None, d\<lparr>contents := Some (Add_build content n c)\<rparr>)
       \<and> Delete n (d\<lparr>contents := Some (Add_build content n c)\<rparr>)
           = (None, d\<lparr>contents := Some (normalize_text content)\<rparr>)"
proof -
  let ?B = "Add_build content n c"
  let ?d1 = "d\<lparr>contents := Some ?B\<rparr>"
  let ?tc = "TrimSpace c"
  let ?pre = "if content = [] then [] else scan_tokens content @ [[]]"
  let ?body = "map dropCR (raw_lines (?tc @ [NL]))"
  have add: "Add n c d = (None, ?d1)"
    using assms(1,2,3) by (simp add: Add_success)
  from assms(1) have rd: "Read ?d1 = Inr ?B"
    by (simp add: Read_Inr)
  have uw: "\<not> unwritable ?d1" using assms(2) by simp
  note rl = raw_lines_Add_build [OF assms(5), of content c]
  from assms(7) have fit: "list_all fits (raw_lines ?B)" by (simp add: scan_err_def)
  then have fc: "list_all fits (raw_lines content)" and fb: "list_all fits (raw_lines (?tc @ [NL]))"
    unfolding rl by (auto split: if_splits)
  have toks: "scan_tokens ?B = ?pre @ startMarker n # ?body @ endMarker n # []"
    unfolding scan_tokens_all_fit [OF fit] rl
    by (simp add: scan_tokens_all_fit [OF fc] dropCR_markers [OF assms(4,6)] dropCR_Nil)
  have pre: "\<forall>l \<in> set ?pre. TrimSpace l \<noteq> startMarker n \<and> TrimSpace l \<noteq> endMarker n"
  proof
    fix l assume l: "l \<in> set ?pre"
    show "TrimSpace l \<noteq> startMarker n \<and> TrimSpace l \<noteq> endMarker n"
    proof (cases "l \<in> set (scan_tokens content)")
      case True
      with assms(3) marker_line_in_content [OF True, of "startMarker n"] assms(8)
      show ?thesis by auto
    next
      case False
      with l have "l = []" by (auto split: if_splits)
      then show ?thesis using markers_nonempty [of n] by (simp add: TrimSpace_Nil)
    qed
  qed
  have body: "\<forall>l \<in> set ?body. TrimSpace l \<noteq> endMarker n"
  proof (cases "?tc = []")
    case True
    then show ?thesis using markers_nonempty [of n] by (simp add: dropCR_Nil TrimSpace_Nil)
  next
    case False
    moreover have "last ?tc \<noteq> NL"
      using TrimSpace_not_NL [of c] False by (simp add: suffix_single)
    ultimately have e: "raw_lines (?tc @ [NL]) = raw_lines ?tc" by (rule raw_lines_terminate)
    with fb have "list_all fits (raw_lines ?tc)" by simp
    then have "scan_tokens ?tc = ?body" unfolding e by (rule scan_tokens_all_fit)
    with assms(9) show ?thesis by simp
  qed
  have out: "outside n False (scan_tokens ?B) = ?pre"
    unfolding toks
    using outside_section [OF pre TrimSpace_markers(1) [OF assms(4,6)] body
        TrimSpace_markers(2) [OF assms(4,6)], of "[]"]
    by simp
  have found: "list_ex (\<lambda>line. TrimSpace line = startMarker n) (scan_tokens ?B)"
    unfolding toks list_ex_iff using TrimSpace_markers(1) [OF assms(4,6)] by auto
  have "Delete n ?d1 =
          (None, ?d1\<lparr>contents := Some (finalContent (join_lines (collapse_blank False ?pre)))\<rparr>)"
    using Delete_writes [OF rd assms(7) found uw] unfolding out .
  moreover have "finalContent (join_lines (collapse_blank False ?pre)) = normalize_text content"
    by (simp add: normalize_text_def finalContent_blank_line scan_tokens_Nil)
  ultimately have "Delete n ?d1 = (None, d\<lparr>contents := Some (normalize_text content)\<rparr>)"
    by simp
  with add show ?thesis by simp
qed

theorem Add_then_Delete_witness:
  "Read (on_disk (''*.log'' @ [NL, NL, NL] @ ''tmp/'')) = Inr (''*.log'' @ [NL, NL, NL] @ ''tmp/'')
   \<and> \<not> unwritable (on_disk (''*.log'' @ [NL, NL, NL] @ ''tmp/''))
   \<and> \<not> Contains (''*.log'' @ [NL, NL, NL] @ ''tmp/'') (startMarker ''Go'')
   \<and> ''Go'' \<noteq> [] \<and> NL \<notin> set ''Go'' \<and> TrimRightSpace ''Go'' = ''Go''
   \<and> Add ''Go'' (''*.exe'' @ [NL] @ ''bin/'' @ [NL]) (on_disk (''*.log'' @ [NL, NL, NL] @ ''tmp/''))
       = (None, on_disk (join_lines
            [''*.log'', '''', '''', ''tmp/'', '''', ''### START: Go'', ''*.exe'', ''bin/'', ''### END: Go'']))
   \<and> Delete ''Go'' (on_disk (join_lines
            [''*.log'', '''', '''', ''tmp/'', '''', ''### START: Go'', ''*.exe'', ''bin/'', ''### END: Go'']))
       = (None, on_disk (join_lines [''*.log'', '''', ''tmp/'']))"
proof -
  let ?C = "''*.log'' @ [NL, NL, NL] @ ''tmp/''"
  let ?c = "''*.exe'' @ [NL] @ ''bin/'' @ [NL]"
  have b: "Add_build ?C ''Go'' ?c = join_lines
            [''*.log'', '''', '''', ''tmp/'', '''', ''### START: Go'', ''*.exe'', ''bin/'', ''### END: Go'']"
    by (simp add: string_defs marker_defs editor_defs)
  have h1: "Read (on_disk ?C) = Inr ?C" by (simp add: editor_defs)
  have h2: "\<not> unwritable (on_disk ?C)" by (simp add: on_disk_def)
  have h3: "\<not> Contains ?C (startMarker ''Go'')"
    by (simp add: marker_defs sublist_Cons_right)
  have h4: "''Go'' \<noteq> []" by simp
  have h5: "NL \<notin> set ''Go''" by simp
  have h6: "TrimRightSpace ''Go'' = ''Go''" by (simp add: string_defs)
  have h7: "\<not> scan_err (Add_build ?C ''Go'' ?c)"
    unfolding b by (simp add: string_defs scanner_defs)
  have h8: "\<forall>l \<in> set (scan_tokens ?C). TrimSpace l \<noteq> endMarker ''Go''"
    by (simp add: string_defs scanner_defs marker_defs)
  have h9: "\<forall>l \<in> set (scan_tokens (TrimSpace ?c)). TrimSpace l \<noteq> endMarker ''Go''"
    by (simp add: string_defs scanner_defs marker_defs)
  have n: "normalize_text ?C = join_lines [''*.log'', '''', ''tmp/'']"
    by (simp add: normalize_text_def string_defs scanner_defs editor_defs)
  from Add_then_Delete [OF h1 h2 h3 h4 h5 h6 h7 h8 h9]
  have "Add ''Go'' ?c (on_disk ?C) = (None, (on_disk ?C)\<lparr>contents := Some (Add_build ?C ''Go'' ?c)\<rparr>)"
    and "Delete ''Go'' ((on_disk ?C)\<lparr>contents := Some (Add_build ?C ''Go'' ?c)\<rparr>)
           = (None, (on_disk ?C)\<lparr>contents := Some (normalize_text ?C)\<rparr>)"
    by simp_all
  then have "Add ''Go'' ?c (on_disk ?C) = (None, on_disk (join_lines
            [''*.log'', '''', '''', ''tmp/'', '''', ''### START: Go'', ''*.exe'', ''bin/'', ''### END: Go'']))"
    and "Delete ''Go'' (on_disk (join_lines
            [''*.log'', '''', '''', ''tmp/'', '''', ''### START: Go'', ''*.exe'', ''bin/'', ''### END: Go'']))
       = (None, on_disk (join_lines [''*.log'', '''', ''tmp/'']))"
    unfolding b n by (simp_all add: on_disk_def)
  with h1 h2 h3 h4 h5 h6 show ?thesis by simp
qed

end
